theory Spec2Isabelle
  imports Complex_Main "HOL-Library.Word"
begin

section \<open>Handles of the scene graph\<close>

text \<open>
  \<^verbatim>\<open>Entity\<close> and \<^verbatim>\<open>Component\<close> are the handle structs of the host scene graph. The
  animation scene reads the fields \<^verbatim>\<open>index\<close> and \<^verbatim>\<open>universe\<close> of an entity and the
  fields \<^verbatim>\<open>entity\<close>, \<^verbatim>\<open>type\<close>, \<^verbatim>\<open>scene\<close> and \<^verbatim>\<open>index\<close> of a component, and builds
  components with the four-argument constructor. Pointers (\<^verbatim>\<open>Universe*\<close>, \<^verbatim>\<open>IScene*\<close>)
  are addresses, modelled as natural numbers, \<open>0\<close> being the null pointer. The C++ \<^verbatim>\<open>int\<close> fields are never used in
  arithmetic that could overflow, so they are \<open>int\<close>. \<^verbatim>\<open>Entity::operator==\<close> is
  modelled as equality of both fields.
\<close>

record entity =
  index :: int
  universe :: nat

record component =
  entity :: entity
  type :: "32 word"
  scene :: nat
  index :: int

definition Component :: "entity \<Rightarrow> 32 word \<Rightarrow> nat \<Rightarrow> int \<Rightarrow> component" where
  "Component e t sc i = \<lparr>entity = e, type = t, scene = sc, index = i\<rparr>"

section \<open>The slot table\<close>

text \<open>
  \<^verbatim>\<open>struct Animable\<close>. The clip is a pointer into the resource cache (\<open>None\<close> is
  \<^verbatim>\<open>NULL\<close>); what it points to is read through the accessors of the environment below.
  The type \<open>'f\<close> stands for \<^verbatim>\<open>float\<close>: the scene only adds, subtracts and compares
  times, and stores \<open>0\<close>, so the model is generic in the arithmetic.
\<close>

record 'f animable =
  m_manual :: bool
  m_is_free :: bool
  m_renderable :: component
  m_time :: 'f
  m_animation :: "nat option"
  m_entity :: entity

text \<open>
  Calls made into the universe (\<^verbatim>\<open>addComponent\<close>, \<^verbatim>\<open>destroyComponent\<close>, and the
  \<^verbatim>\<open>componentCreated\<close> event) are recorded in order; one entry of the pose log is one
  call of \<^verbatim>\<open>Animation::getPose\<close> with the time sampled and the renderable whose pose
  buffer and model were fetched.
\<close>

datatype universe_call =
    AddComponent component
  | DestroyComponent component
  | ComponentCreated component

datatype 'f pose_call = GetPose nat 'f component

record 'f animation_scene =
  m_animables :: "'f animable list"
  m_universe :: "universe_call list"

text \<open>
  Everything the scene consumes from its collaborators: the two type hashes
  (\<^verbatim>\<open>crc32("animable")\<close>, \<^verbatim>\<open>crc32("renderable")\<close>), \<^verbatim>\<open>Component::INVALID\<close> and
  \<^verbatim>\<open>Component::isValid\<close>, the addresses of the scene itself (\<^verbatim>\<open>this\<close>) and of its
  universe, \<^verbatim>\<open>RenderScene::getRenderable\<close>, the resource manager's \<^verbatim>\<open>load\<close> and the
  accessors of \<^verbatim>\<open>Animation\<close>, the size \<^verbatim>\<open>LUMIX_MAX_PATH\<close> of the path buffer, and the
  contents of a slot that \<^verbatim>\<open>Array::pushEmpty\<close> or \<^verbatim>\<open>Array::resize\<close> has just made.
\<close>

record 'f env =
  ANIMABLE_HASH :: "32 word"
  RENDERABLE_HASH :: "32 word"
  INVALID :: component
  isValid :: "component \<Rightarrow> bool"
  this_scene :: nat
  universe_ptr :: nat
  getRenderable :: "entity \<Rightarrow> component"
  load :: "string \<Rightarrow> nat option"
  getPath :: "nat \<Rightarrow> string"
  getLength :: "nat \<Rightarrow> 'f"
  isReady :: "nat \<Rightarrow> bool"
  LUMIX_MAX_PATH :: nat
  new_Animable :: "'f animable"

text \<open>
  The three scanning loops (\<^verbatim>\<open>for (i = 0; i < size; ++i) if (P(slot i)) { ...; break; }\<close>)
  find the index of the first slot that satisfies the test.
\<close>

primrec find_first :: "('a \<Rightarrow> bool) \<Rightarrow> 'a list \<Rightarrow> nat option" where
  "find_first P [] = None"
| "find_first P (x # xs) = (if P x then Some 0 else map_option Suc (find_first P xs))"

text \<open>The spec's field \<open>auto_advance\<close> is the negation of \<^verbatim>\<open>m_manual\<close>.\<close>

definition auto_advance :: "'f animable \<Rightarrow> bool" where
  "auto_advance a = (\<not> m_manual a)"

section \<open>Operations of the scene\<close>

definition onComponentCreated :: "'f env \<Rightarrow> component \<Rightarrow> 'f animation_scene \<Rightarrow> 'f animation_scene" where
  "onComponentCreated env cmp s =
     (if type cmp = RENDERABLE_HASH env then
        (case find_first (\<lambda>a. m_entity a = entity cmp) (m_animables s) of
           Some i \<Rightarrow> s\<lparr>m_animables := (m_animables s)[i := (m_animables s ! i)\<lparr>m_renderable := cmp\<rparr>]\<rparr>
         | None \<Rightarrow> s)
      else s)"

text \<open>
  \<^verbatim>\<open>createAnimable\<close>: the slot written is the first free one, or a slot appended by
  \<^verbatim>\<open>pushEmpty\<close>; the handle registered and returned carries the index
  \<^verbatim>\<open>m_animables.size() - 1\<close>. The scene is itself subscribed to the event it fires.
\<close>

definition createAnimable :: "'f::zero env \<Rightarrow> entity \<Rightarrow> 'f animation_scene \<Rightarrow> component \<times> 'f animation_scene" where
  "createAnimable env e s =
     (let (i, tbl) = (case find_first m_is_free (m_animables s) of
                        Some i \<Rightarrow> (i, m_animables s)
                      | None \<Rightarrow> (length (m_animables s), m_animables s @ [new_Animable env]));
          animable = (tbl ! i)\<lparr>m_manual := True, m_time := 0, m_is_free := False,
                               m_renderable := INVALID env, m_animation := None, m_entity := e\<rparr>;
          renderable = getRenderable env e;
          animable' = (if isValid env renderable then animable\<lparr>m_renderable := renderable\<rparr> else animable);
          tbl' = tbl[i := animable'];
          cmp = Component e (ANIMABLE_HASH env) (this_scene env) (int (length tbl') - 1);
          s' = s\<lparr>m_animables := tbl', m_universe := m_universe s @ [AddComponent cmp, ComponentCreated cmp]\<rparr>
      in (cmp, onComponentCreated env cmp s'))"

definition getAnimable :: "'f env \<Rightarrow> entity \<Rightarrow> 'f animation_scene \<Rightarrow> component" where
  "getAnimable env e s =
     (case find_first (\<lambda>a. m_entity a = e) (m_animables s) of
        Some i \<Rightarrow> Component e (ANIMABLE_HASH env) (this_scene env) (int i)
      | None \<Rightarrow> INVALID env)"

definition createComponent :: "'f::zero env \<Rightarrow> 32 word \<Rightarrow> entity \<Rightarrow> 'f animation_scene \<Rightarrow> component \<times> 'f animation_scene" where
  "createComponent env t e s =
     (if t = ANIMABLE_HASH env then createAnimable env e s else (INVALID env, s))"

text \<open>
  \<^verbatim>\<open>m_animables[cmp.index]\<close> with an index outside the table is an out-of-bounds access;
  the operations that index by a handle return \<open>None\<close> there.
\<close>

definition in_table :: "component \<Rightarrow> 'f animation_scene \<Rightarrow> bool" where
  "in_table cmp s = (0 \<le> component.index cmp \<and> nat (component.index cmp) < length (m_animables s))"

definition destroyComponent :: "component \<Rightarrow> 'f animation_scene \<Rightarrow> 'f animation_scene option" where
  "destroyComponent cmp s =
     (if in_table cmp s then
        (let i = nat (component.index cmp) in
         Some (s\<lparr>m_animables := (m_animables s)[i := (m_animables s ! i)\<lparr>m_is_free := True\<rparr>],
                 m_universe := m_universe s @ [DestroyComponent cmp]\<rparr>))
      else None)"

definition playAnimation :: "'f::zero env \<Rightarrow> component \<Rightarrow> string \<Rightarrow> 'f animation_scene \<Rightarrow> 'f animation_scene option" where
  "playAnimation env cmp path s =
     (if in_table cmp s then
        (let i = nat (component.index cmp) in
         Some (s\<lparr>m_animables := (m_animables s)[i := (m_animables s ! i)
                   \<lparr>m_animation := load env path, m_time := 0, m_manual := False\<rparr>]\<rparr>))
      else None)"

section \<open>Binary32 arithmetic\<close>

text \<open>
  The times of the scene are C++ \<^verbatim>\<open>float\<close>s: IEEE 754 binary32 values, every operation
  rounding its exact result to the nearest value, ties to the even significand. A finite
  value is carried by the rational it denotes (the two zeros are not told apart);
  \<open>Finite r\<close> is a binary32 value when \<open>r = m * 2 ^ e\<close> with \<open>\<bar>m\<bar> < 2 ^ 24\<close>
  and \<open>- 149 \<le> e \<le> 104\<close>; the operations below round their exact result to
  such a value, or to an infinity.
\<close>

datatype float32 = Finite rat | PInf | NInf | NaN

text \<open>The number of binary digits of a positive integer.\<close>

fun bitlen :: "int \<Rightarrow> nat" where
  "bitlen n = (if n \<le> 0 then 0 else Suc (bitlen (n div 2)))"

declare bitlen.simps [simp del]

text \<open>
  For \<open>x > 0\<close>, the integer \<open>n\<close> with \<open>2 ^ n \<le> x < 2 ^ (n + 1)\<close>: it is the difference
  of the numbers of digits of numerator and denominator, or one less.
\<close>

definition ilog2 :: "rat \<Rightarrow> int" where
  "ilog2 x =
     (let (p, q) = quotient_of x;
          c = int (bitlen p) - int (bitlen q)
      in if 2 powi c \<le> x then c else c - 1)"

definition round_half_even :: "rat \<Rightarrow> int" where
  "round_half_even y =
     (let f = \<lfloor>y\<rfloor>; d = y - of_int f
      in if d < 1 / 2 then f else if 1 / 2 < d then f + 1 else if even f then f else f + 1)"

text \<open>
  Rounding to binary32: the significand has 24 digits, so the unit in the last place of
  \<open>x\<close> is \<open>2 ^ e\<close> with \<open>e = ilog2 \<bar>x\<bar> - 23\<close>, and not below \<open>2 ^ - 149\<close>
  (subnormal values); a result of magnitude \<open>2 ^ 128\<close> or more is an infinity.
\<close>

definition round32 :: "rat \<Rightarrow> float32" where
  "round32 x =
     (if x = 0 then Finite 0
      else let e = max (- 149) (ilog2 \<bar>x\<bar> - 23);
               r = of_int (round_half_even (x / 2 powi e)) * 2 powi e
           in if 2 powi 128 \<le> \<bar>r\<bar> then (if 0 < x then PInf else NInf) else Finite r)"

instantiation float32 :: "{zero, plus, minus, ord}"
begin

definition zero_float32 :: float32 where
  "zero_float32 = Finite 0"

fun plus_float32 :: "float32 \<Rightarrow> float32 \<Rightarrow> float32" where
  "plus_float32 (Finite a) (Finite b) = round32 (a + b)"
| "plus_float32 NaN _ = NaN"
| "plus_float32 _ NaN = NaN"
| "plus_float32 PInf NInf = NaN"
| "plus_float32 NInf PInf = NaN"
| "plus_float32 PInf _ = PInf"
| "plus_float32 _ PInf = PInf"
| "plus_float32 NInf _ = NInf"
| "plus_float32 _ NInf = NInf"

fun minus_float32 :: "float32 \<Rightarrow> float32 \<Rightarrow> float32" where
  "minus_float32 (Finite a) (Finite b) = round32 (a - b)"
| "minus_float32 NaN _ = NaN"
| "minus_float32 _ NaN = NaN"
| "minus_float32 PInf PInf = NaN"
| "minus_float32 NInf NInf = NaN"
| "minus_float32 PInf _ = PInf"
| "minus_float32 _ NInf = PInf"
| "minus_float32 NInf _ = NInf"
| "minus_float32 _ PInf = NInf"

fun less_float32 :: "float32 \<Rightarrow> float32 \<Rightarrow> bool" where
  "less_float32 (Finite a) (Finite b) = (a < b)"
| "less_float32 NInf (Finite b) = True"
| "less_float32 NInf PInf = True"
| "less_float32 (Finite a) PInf = True"
| "less_float32 _ _ = False"

definition less_eq_float32 :: "float32 \<Rightarrow> float32 \<Rightarrow> bool" where
  "less_eq_float32 x y = (x < y \<or> (x = y \<and> x \<noteq> NaN))"

instance ..

end


section \<open>Frame update\<close>

text \<open>
  The wrap-around loop \<^verbatim>\<open>while (t > l) { t -= l; }\<close>. It need not terminate (take
  \<open>l = 0 < t\<close>), so not returning is the value \<open>None\<close>.
\<close>

partial_function (option) wrap_loop :: "'f::{minus,ord} \<Rightarrow> 'f \<Rightarrow> 'f option" where
  "wrap_loop t l = (if t > l then wrap_loop (t - l) l else Some t)"

declare wrap_loop.simps [code]

text \<open>
  A tick that does not return: \<^verbatim>\<open>update\<close> calls \<^verbatim>\<open>scene->getPose\<close> and
  \<^verbatim>\<open>scene->getRenderableModel\<close> on the scene pointer of the slot's \<^verbatim>\<open>m_renderable\<close>,
  which is a null pointer dereference when that pointer is null; or the wrap-around loop
  runs forever.
\<close>

datatype update_failure = NullScene | EndlessLoop

text \<open>
  The body of the loop of \<^verbatim>\<open>update\<close> for one slot: the slot after the tick and the calls
  of \<^verbatim>\<open>Animation::getPose\<close> it made. The scene is taken from \<^verbatim>\<open>m_renderable\<close> as it
  stands; the body has no test of \<^verbatim>\<open>m_renderable.isValid()\<close>. The arguments of
  \<^verbatim>\<open>getPose\<close> are evaluated before the call, so with a null scene no pose is sampled.
\<close>

definition update_animable :: "'f::{plus,minus,ord} env \<Rightarrow> 'f \<Rightarrow> 'f animable \<Rightarrow> update_failure + ('f animable \<times> 'f pose_call list)" where
  "update_animable env time_delta animable =
     (if m_is_free animable then Inr (animable, [])
      else case m_animation animable of
        None \<Rightarrow> Inr (animable, [])
      | Some anim \<Rightarrow>
          if isReady env anim then
            (if scene (m_renderable animable) = 0 then Inl NullScene
             else
               (let pose = GetPose anim (m_time animable) (m_renderable animable) in
                if \<not> m_manual animable then
                  (case wrap_loop (m_time animable + time_delta) (getLength env anim) of
                     None \<Rightarrow> Inl EndlessLoop
                   | Some t \<Rightarrow> Inr (animable\<lparr>m_time := t\<rparr>, [pose]))
                else Inr (animable, [pose])))
          else Inr (animable, []))"

fun update_loop :: "'f::{plus,minus,ord} env \<Rightarrow> 'f \<Rightarrow> 'f animable list \<Rightarrow> update_failure + ('f animable list \<times> 'f pose_call list)" where
  "update_loop env time_delta [] = Inr ([], [])"
| "update_loop env time_delta (a # as) =
     (case update_animable env time_delta a of
        Inl failure \<Rightarrow> Inl failure
      | Inr (a', p) \<Rightarrow>
          (case update_loop env time_delta as of
             Inl failure \<Rightarrow> Inl failure
           | Inr (as', ps) \<Rightarrow> Inr (a' # as', p @ ps)))"

definition update :: "'f::{plus,minus,ord} env \<Rightarrow> 'f \<Rightarrow> 'f animation_scene \<Rightarrow> update_failure + ('f animation_scene \<times> 'f pose_call list)" where
  "update env time_delta s =
     (if m_animables s = [] then Inr (s, [])
      else case update_loop env time_delta (m_animables s) of
        Inl failure \<Rightarrow> Inl failure
      | Inr (tbl, poses) \<Rightarrow> Inr (s\<lparr>m_animables := tbl\<rparr>, poses))"




text \<open>
  Times on which binary32 arithmetic is exact: the non-negative multiples of \<open>2 ^ - k\<close>
  below \<open>2 ^ (23 - k)\<close>. Sums and differences of two of them are computed without
  rounding.
\<close>

definition on_grid :: "nat \<Rightarrow> rat \<Rightarrow> bool" where
  "on_grid k x = (of_int \<lfloor>x * 2 ^ k\<rfloor> = x * 2 ^ k)"



section \<open>Serialization\<close>

text \<open>
  \<^verbatim>\<open>OutputBlob\<close> and \<^verbatim>\<open>InputBlob\<close> are the engine's blob primitives. A blob is modelled as
  the sequence of values written, each tagged with the primitive that wrote it; reading
  takes the next value and fails (\<open>None\<close>) when the blob is exhausted or the next value
  was written by another primitive. Strings are C strings: \<^verbatim>\<open>readString\<close> is given a
  buffer of \<^verbatim>\<open>LUMIX_MAX_PATH\<close> chars, and a string that does not fit there with its
  terminator is a failed read.
\<close>

datatype 'f blob_item = B_bool bool | B_int32 int | B_float 'f | B_string string

fun read_bool :: "'f blob_item list \<Rightarrow> (bool \<times> 'f blob_item list) option" where
  "read_bool (B_bool b # rest) = Some (b, rest)"
| "read_bool _ = None"

fun read_int32 :: "'f blob_item list \<Rightarrow> (int \<times> 'f blob_item list) option" where
  "read_int32 (B_int32 n # rest) = Some (n, rest)"
| "read_int32 _ = None"

fun read_float :: "'f blob_item list \<Rightarrow> ('f \<times> 'f blob_item list) option" where
  "read_float (B_float x # rest) = Some (x, rest)"
| "read_float _ = None"

fun readString :: "nat \<Rightarrow> 'f blob_item list \<Rightarrow> (string \<times> 'f blob_item list) option" where
  "readString max_size (B_string str # rest) =
     (if length str < max_size then Some (str, rest) else None)"
| "readString max_size _ = None"

text \<open>The path shown for a slot (\<^verbatim>\<open>getPreview\<close>), which is also the string \<^verbatim>\<open>serialize\<close> writes.\<close>

definition getPreview :: "'f env \<Rightarrow> 'f animable \<Rightarrow> string" where
  "getPreview env a = (case m_animation a of Some anim \<Rightarrow> getPath env anim | None \<Rightarrow> [])"

definition serialize_animable :: "'f env \<Rightarrow> 'f animable \<Rightarrow> 'f blob_item list" where
  "serialize_animable env a =
     [B_bool (m_manual a),
      B_int32 (entity.index (entity (m_renderable a))),
      B_float (m_time a),
      B_bool (m_is_free a),
      B_string (getPreview env a)]"

definition serialize :: "'f env \<Rightarrow> 'f animation_scene \<Rightarrow> 'f blob_item list" where
  "serialize env s =
     B_int32 (int (length (m_animables s))) # concat (map (serialize_animable env) (m_animables s))"

text \<open>\<^verbatim>\<open>Array::resize\<close>: keeps the first \<open>n\<close> slots and fills up with fresh ones.\<close>

definition resize :: "nat \<Rightarrow> 'a \<Rightarrow> 'a list \<Rightarrow> 'a list" where
  "resize n x xs = take n xs @ replicate (n - length xs) x"

text \<open>One round of the loop of \<^verbatim>\<open>deserialize\<close>, for slot \<open>i\<close>.\<close>

definition deserialize_animable ::
  "'f env \<Rightarrow> nat \<Rightarrow> 'f animable \<Rightarrow> 'f blob_item list \<Rightarrow> ('f animable \<times> universe_call \<times> 'f blob_item list) option" where
  "deserialize_animable env i a blob =
     (case read_bool blob of
        None \<Rightarrow> None
      | Some (manual, blob1) \<Rightarrow>
     (case read_int32 blob1 of
        None \<Rightarrow> None
      | Some (idx, blob2) \<Rightarrow>
     (let ent = \<lparr>entity.index = idx, universe = universe_ptr env\<rparr>;
          renderable = getRenderable env ent;
          a1 = a\<lparr>m_manual := manual, m_entity := ent\<rparr>;
          a2 = (if isValid env renderable then a1\<lparr>m_renderable := renderable\<rparr> else a1)
      in
     (case read_float blob2 of
        None \<Rightarrow> None
      | Some (time, blob3) \<Rightarrow>
     (case read_bool blob3 of
        None \<Rightarrow> None
      | Some (free, blob4) \<Rightarrow>
     (case readString (LUMIX_MAX_PATH env) blob4 of
        None \<Rightarrow> None
      | Some (path, blob5) \<Rightarrow>
          Some (a2\<lparr>m_time := time, m_is_free := free,
                    m_animation := (if path = [] then None else load env path)\<rparr>,
                AddComponent (Component ent (ANIMABLE_HASH env) (this_scene env) (int i)),
                blob5)))))))"

fun deserialize_loop ::
  "'f env \<Rightarrow> nat \<Rightarrow> 'f animable list \<Rightarrow> 'f blob_item list \<Rightarrow> ('f animable list \<times> universe_call list \<times> 'f blob_item list) option" where
  "deserialize_loop env i [] blob = Some ([], [], blob)"
| "deserialize_loop env i (a # as) blob =
     (case deserialize_animable env i a blob of
        None \<Rightarrow> None
      | Some (a', c, blob') \<Rightarrow>
          (case deserialize_loop env (Suc i) as blob' of
             None \<Rightarrow> None
           | Some (as', cs, blob'') \<Rightarrow> Some (a' # as', c # cs, blob'')))"

text \<open>
  \<^verbatim>\<open>deserialize\<close> into a scene \<open>s\<close>: the result is the scene and the unread rest of the
  blob. A negative count is a failed read.
\<close>

definition deserialize :: "'f env \<Rightarrow> 'f animation_scene \<Rightarrow> 'f blob_item list \<Rightarrow> ('f animation_scene \<times> 'f blob_item list) option" where
  "deserialize env s blob =
     (case read_int32 blob of
        None \<Rightarrow> None
      | Some (count, blob1) \<Rightarrow>
          (if count < 0 then None
           else (case deserialize_loop env 0 (resize (nat count) (new_Animable env) (m_animables s)) blob1 of
                   None \<Rightarrow> None
                 | Some (tbl, calls, rest) \<Rightarrow>
                     Some (s\<lparr>m_animables := tbl, m_universe := m_universe s @ calls\<rparr>, rest))))"

section \<open>Sequences of operations and the invariants of the table\<close>

text \<open>The index of the slot that \<^verbatim>\<open>createAnimable\<close> writes: \<^verbatim>\<open>src ? *src : pushEmpty()\<close>.\<close>

definition allocated_index :: "'f animable list \<Rightarrow> nat" where
  "allocated_index tbl = (case find_first m_is_free tbl of Some i \<Rightarrow> i | None \<Rightarrow> length tbl)"

datatype scene_op = Create entity | Destroy component

fun run_ops :: "'f::zero env \<Rightarrow> scene_op list \<Rightarrow> 'f animation_scene \<Rightarrow> 'f animation_scene option" where
  "run_ops env [] s = Some s"
| "run_ops env (Create e # ops) s = run_ops env ops (snd (createAnimable env e s))"
| "run_ops env (Destroy c # ops) s =
     (case destroyComponent c s of None \<Rightarrow> None | Some s' \<Rightarrow> run_ops env ops s')"

definition live_entities :: "'f animation_scene \<Rightarrow> entity list" where
  "live_entities s = map m_entity (filter (\<lambda>a. \<not> m_is_free a) (m_animables s))"

definition one_live_slot_per_entity :: "'f animation_scene \<Rightarrow> bool" where
  "one_live_slot_per_entity s = distinct (live_entities s)"

text \<open>
  A sequence of operations in which \<^verbatim>\<open>create\<close> is only called for an entity that has no
  live slot at that moment, and \<^verbatim>\<open>destroy\<close> only with a handle whose index is in the table.
\<close>

fun well_used :: "'f::zero env \<Rightarrow> scene_op list \<Rightarrow> 'f animation_scene \<Rightarrow> bool" where
  "well_used env [] s = True"
| "well_used env (Create e # ops) s =
     (e \<notin> set (live_entities s) \<and> well_used env ops (snd (createAnimable env e s)))"
| "well_used env (Destroy c # ops) s =
     (case destroyComponent c s of None \<Rightarrow> False | Some s' \<Rightarrow> well_used env ops s')"

text \<open>
  What the round trip of a table through a blob needs from the resource manager: asked
  for the path of a clip of the table, it returns a clip with that path. The empty path
  is never requested.
\<close>

definition reloads :: "'f env \<Rightarrow> string \<Rightarrow> bool" where
  "reloads env path = (path = [] \<or> map_option (getPath env) (load env path) = Some path)"

text \<open>
  What \<^verbatim>\<open>deserialize\<close> restores of a slot \<open>a\<close> in the slot \<open>a'\<close> it reads back: the mode,
  the time, the free flag and the path of the clip. The entity index read back is the one
  that was written, which is the index of the entity of \<^verbatim>\<open>m_renderable\<close>.
\<close>

definition restored :: "'f env \<Rightarrow> 'f animable \<Rightarrow> 'f animable \<Rightarrow> bool" where
  "restored env a a' =
     (m_manual a' = m_manual a \<and> m_time a' = m_time a \<and> m_is_free a' = m_is_free a \<and>
      getPreview env a' = getPreview env a \<and>
      (m_animation a = None \<longrightarrow> m_animation a' = None) \<and>
      entity.index (m_entity a') = entity.index (entity (m_renderable a)))"

section \<open>Example data\<close>

definition ex_invalid :: component where
  "ex_invalid = Component \<lparr>entity.index = - 1, universe = 0\<rparr> 0 0 (- 1)"

definition ex_E :: entity where
  "ex_E = \<lparr>entity.index = 7, universe = 2\<rparr>"

definition ex_G :: entity where
  "ex_G = \<lparr>entity.index = 8, universe = 2\<rparr>"

text \<open>
  An environment with no renderables, one clip at address 10 (\<^verbatim>\<open>walk.ani\<close>, two seconds
  long, loaded), and exact rational arithmetic for the times.
\<close>

definition ex_env :: "rat env" where
  "ex_env =
     \<lparr>ANIMABLE_HASH = 0xD0EA9BCE, RENDERABLE_HASH = 0x5A283055,
      INVALID = ex_invalid, isValid = (\<lambda>c. 0 \<le> component.index c),
      this_scene = 1, universe_ptr = 2,
      getRenderable = (\<lambda>e. ex_invalid),
      load = (\<lambda>p. if p = ''walk.ani'' then Some 10 else None),
      getPath = (\<lambda>a. ''walk.ani''), getLength = (\<lambda>a. 2), isReady = (\<lambda>a. True),
      LUMIX_MAX_PATH = 260,
      new_Animable = \<lparr>m_manual = False, m_is_free = False, m_renderable = ex_invalid, m_time = 0,
                      m_animation = None, m_entity = \<lparr>entity.index = - 1, universe = 0\<rparr>\<rparr>\<rparr>"

text \<open>The renderable of entity \<open>ex_E\<close>, and the environment once the render scene holds it.\<close>

definition ex_renderable :: component where
  "ex_renderable = Component ex_E 0x5A283055 3 0"

definition ex_env_rendered :: "rat env" where
  "ex_env_rendered = ex_env\<lparr>getRenderable := (\<lambda>e. if e = ex_E then ex_renderable else ex_invalid)\<rparr>"

text \<open>A live slot of \<open>ex_E\<close> playing the clip from time \<open>0\<close>, with no renderable bound.\<close>

definition ex_slot :: "rat animable" where
  "ex_slot = \<lparr>m_manual = False, m_is_free = False, m_renderable = ex_invalid, m_time = 0,
              m_animation = Some 10, m_entity = ex_E\<rparr>"

definition ex_scene :: "rat animable list \<Rightarrow> rat animation_scene" where
  "ex_scene tbl = \<lparr>m_animables = tbl, m_universe = []\<rparr>"

text \<open>
  The same environment with binary32 times, and a live slot of \<open>ex_E\<close> bound to its
  renderable (whose scene is at address 3), playing the clip from time \<open>0\<close>.
\<close>

definition fl_env :: "float32 env" where
  "fl_env =
     \<lparr>ANIMABLE_HASH = 0xD0EA9BCE, RENDERABLE_HASH = 0x5A283055,
      INVALID = ex_invalid, isValid = (\<lambda>c. 0 \<le> component.index c),
      this_scene = 1, universe_ptr = 2,
      getRenderable = (\<lambda>e. ex_invalid),
      load = (\<lambda>p. if p = ''walk.ani'' then Some 10 else None),
      getPath = (\<lambda>a. ''walk.ani''), getLength = (\<lambda>a. Finite 2), isReady = (\<lambda>a. True),
      LUMIX_MAX_PATH = 260,
      new_Animable = \<lparr>m_manual = False, m_is_free = False, m_renderable = ex_invalid, m_time = Finite 0,
                      m_animation = None, m_entity = \<lparr>entity.index = - 1, universe = 0\<rparr>\<rparr>\<rparr>"

definition fl_slot :: "float32 animable" where
  "fl_slot = \<lparr>m_manual = False, m_is_free = False, m_renderable = ex_renderable, m_time = Finite 0,
              m_animation = Some 10, m_entity = ex_E\<rparr>"

definition fl_scene :: "float32 animable list \<Rightarrow> float32 animation_scene" where
  "fl_scene tbl = \<lparr>m_animables = tbl, m_universe = []\<rparr>"

section \<open>Properties of the scans and of slot allocation\<close>

lemmas ex_defs = ex_env_def ex_invalid_def ex_E_def ex_G_def ex_slot_def ex_scene_def
  ex_renderable_def ex_env_rendered_def Component_def Let_def

lemma find_first_Some_iff:
  "find_first P xs = Some i \<longleftrightarrow> i < length xs \<and> P (xs ! i) \<and> (\<forall>j<i. \<not> P (xs ! j))"
proof (induction xs arbitrary: i)
  case Nil
  then show ?case by simp
next
  case (Cons x xs)
  show ?case
  proof (cases "P x")
    case True
    then show ?thesis by (cases i) auto
  next
    case False
    show ?thesis
    proof (cases i)
      case 0
      with False show ?thesis by auto
    next
      case (Suc k)
      have "(\<forall>j<Suc k. \<not> P ((x # xs) ! j)) \<longleftrightarrow> (\<forall>j<k. \<not> P (xs ! j))"
        using False by (auto simp: less_Suc_eq_0_disj)
      with False Suc Cons.IH [of k] show ?thesis by auto
    qed
  qed
qed

lemma find_first_None_iff: "find_first P xs = None \<longleftrightarrow> (\<forall>x\<in>set xs. \<not> P x)"
  by (induction xs) auto

lemma allocated_index_None:
  "find_first m_is_free tbl = None \<Longrightarrow> allocated_index tbl = length tbl"
  by (simp add: allocated_index_def)

lemma allocated_index_Some:
  "find_first m_is_free tbl = Some i \<Longrightarrow> allocated_index tbl = i"
  by (simp add: allocated_index_def)

lemma allocated_index_le: "allocated_index tbl \<le> length tbl"
proof (cases "find_first m_is_free tbl")
  case None
  then show ?thesis by (simp add: allocated_index_None)
next
  case (Some i)
  then have "i < length tbl" by (simp add: find_first_Some_iff)
  with Some show ?thesis by (simp add: allocated_index_Some)
qed

lemma allocated_index_reuse:
  assumes "allocated_index tbl < length tbl"
  shows "m_is_free (tbl ! allocated_index tbl) \<and> (\<forall>j<allocated_index tbl. \<not> m_is_free (tbl ! j))"
proof (cases "find_first m_is_free tbl")
  case None
  with assms show ?thesis by (simp add: allocated_index_None)
next
  case (Some i)
  then have "m_is_free (tbl ! i) \<and> (\<forall>j<i. \<not> m_is_free (tbl ! j))"
    by (simp add: find_first_Some_iff)
  with Some show ?thesis by (simp add: allocated_index_Some)
qed

lemma allocated_index_append:
  assumes "\<not> allocated_index tbl < length tbl"
  shows "allocated_index tbl = length tbl \<and> (\<forall>a\<in>set tbl. \<not> m_is_free a)"
proof (cases "find_first m_is_free tbl")
  case None
  then have "\<forall>a\<in>set tbl. \<not> m_is_free a" by (simp add: find_first_None_iff)
  with None show ?thesis by (simp add: allocated_index_None)
next
  case (Some i)
  then have "i < length tbl" by (simp add: find_first_Some_iff)
  with Some assms show ?thesis by (simp add: allocated_index_Some)
qed

lemma animable_all_fields:
  "a\<lparr>m_manual := b1, m_time := t, m_is_free := b2, m_renderable := r, m_animation := an, m_entity := e\<rparr> =
   \<lparr>m_manual = b1, m_is_free = b2, m_renderable = r, m_time = t, m_animation = an, m_entity = e\<rparr>"
  by (cases a) simp

text \<open>The table after createAnimable.\<close>

lemma createAnimable_table:
  assumes "ANIMABLE_HASH env \<noteq> RENDERABLE_HASH env"
  shows "m_animables (snd (createAnimable env e s)) =
     (if allocated_index (m_animables s) < length (m_animables s) then m_animables s
      else m_animables s @ [new_Animable env])
     [allocated_index (m_animables s) :=
        \<lparr>m_manual = True, m_is_free = False,
         m_renderable = (if isValid env (getRenderable env e) then getRenderable env e else INVALID env),
         m_time = 0, m_animation = None, m_entity = e\<rparr>]"
proof (cases "find_first m_is_free (m_animables s)")
  case None
  then have "allocated_index (m_animables s) = length (m_animables s)"
    by (rule allocated_index_None)
  with None assms show ?thesis
    by (simp add: createAnimable_def onComponentCreated_def Let_def Component_def animable_all_fields)
next
  case (Some i)
  then have "allocated_index (m_animables s) = i" "i < length (m_animables s)"
    by (simp_all add: allocated_index_Some find_first_Some_iff)
  with Some assms show ?thesis
    by (simp add: createAnimable_def onComponentCreated_def Let_def Component_def animable_all_fields)
qed

section \<open>Creation of a slot\<close>

text \<open>
  C1, as stated, fails: the slot that \<^verbatim>\<open>createAnimable\<close> initializes is in manual mode
  (\<^verbatim>\<open>m_manual = true\<close>), so its \<open>auto_advance\<close> is false. Creating a slot for
  \<open>ex_E\<close> in the empty table shows it.
\<close>

theorem createAnimable_manual_counterexample:
  "\<not> auto_advance (m_animables (snd (createAnimable ex_env ex_E (ex_scene []))) ! 0)"
  by (simp add: createAnimable_def onComponentCreated_def auto_advance_def ex_defs)

text \<open>
  C1 (amended): \<^verbatim>\<open>createAnimable\<close> initializes the allocated slot (the first free slot, or
  the appended one) with \<open>auto_advance = false\<close>, \<open>time = 0\<close> and no clip, marks it
  live and stores the entity; its renderable binding is invalid exactly when the
  renderable owner has no valid binding for the entity at that moment, and is that binding
  otherwise. The two type hashes are different, and \<^verbatim>\<open>Component::INVALID\<close> is not valid.
\<close>

theorem createAnimable_initializes:
  assumes "ANIMABLE_HASH env \<noteq> RENDERABLE_HASH env" and "\<not> isValid env (INVALID env)"
  shows "allocated_index (m_animables s) < length (m_animables (snd (createAnimable env e s))) \<and>
     (let a = m_animables (snd (createAnimable env e s)) ! allocated_index (m_animables s) in
        \<not> auto_advance a \<and> m_time a = 0 \<and> m_animation a = None \<and> \<not> m_is_free a \<and> m_entity a = e \<and>
        (\<not> isValid env (m_renderable a) \<longleftrightarrow> \<not> isValid env (getRenderable env e)) \<and>
        (isValid env (getRenderable env e) \<longrightarrow> m_renderable a = getRenderable env e))"
proof -
  let ?i = "allocated_index (m_animables s)"
  have le: "?i \<le> length (m_animables s)" by (rule allocated_index_le)
  show ?thesis
    using assms(2) le
    by (simp add: createAnimable_table [OF assms(1)] auto_advance_def Let_def)
qed

text \<open>
  Witness for C1: in an environment where \<open>ex_E\<close> has a renderable, creating its slot
  in a table with one live slot appends slot 1, in manual mode and bound to the renderable.
\<close>

theorem createAnimable_initializes_witness:
  "ANIMABLE_HASH ex_env_rendered \<noteq> RENDERABLE_HASH ex_env_rendered \<and>
   \<not> isValid ex_env_rendered (INVALID ex_env_rendered) \<and>
   allocated_index [ex_slot\<lparr>m_entity := ex_G\<rparr>] = 1 \<and>
   m_animables (snd (createAnimable ex_env_rendered ex_E (ex_scene [ex_slot\<lparr>m_entity := ex_G\<rparr>]))) ! 1 =
     \<lparr>m_manual = True, m_is_free = False, m_renderable = ex_renderable, m_time = 0,
      m_animation = None, m_entity = ex_E\<rparr>"
proof -
  have h1: "ANIMABLE_HASH ex_env_rendered \<noteq> RENDERABLE_HASH ex_env_rendered"
    by (simp add: ex_defs)
  have h2: "\<not> isValid ex_env_rendered (INVALID ex_env_rendered)"
    by (simp add: ex_defs)
  have i: "allocated_index [ex_slot\<lparr>m_entity := ex_G\<rparr>] = 1"
    by (simp add: allocated_index_def ex_defs)
  have r: "getRenderable ex_env_rendered ex_E = ex_renderable" "isValid ex_env_rendered ex_renderable"
    by (simp_all add: ex_defs)
  from createAnimable_initializes [OF h1 h2, of "ex_scene [ex_slot\<lparr>m_entity := ex_G\<rparr>]" ex_E]
  have "let a = m_animables (snd (createAnimable ex_env_rendered ex_E (ex_scene [ex_slot\<lparr>m_entity := ex_G\<rparr>]))) ! 1
        in m_manual a \<and> m_time a = 0 \<and> m_animation a = None \<and> \<not> m_is_free a \<and> m_entity a = ex_E \<and>
           m_renderable a = ex_renderable"
    using i r by (simp add: ex_scene_def auto_advance_def Let_def)
  then have "m_animables (snd (createAnimable ex_env_rendered ex_E (ex_scene [ex_slot\<lparr>m_entity := ex_G\<rparr>]))) ! 1 =
     \<lparr>m_manual = True, m_is_free = False, m_renderable = ex_renderable, m_time = 0,
      m_animation = None, m_entity = ex_E\<rparr>"
    by (simp add: Let_def animable.equality)
  with h1 h2 i show ?thesis by simp
qed

text \<open>
  C3: the handle that \<^verbatim>\<open>createAnimable\<close> returns does not carry the index of the slot it
  initialized when that slot is a reused one. In the table of a free slot 0 and a live
  slot 1, the slot allocated and written is slot 0, and the handle returned has index 1
  (\<^verbatim>\<open>m_animables.size() - 1\<close>), the index of the untouched slot of another entity.
\<close>

theorem createAnimable_returns_last_index:
  "allocated_index [ex_slot\<lparr>m_is_free := True\<rparr>, ex_slot\<lparr>m_entity := ex_G\<rparr>] = 0 \<and>
   component.index (fst (createAnimable ex_env ex_E
      (ex_scene [ex_slot\<lparr>m_is_free := True\<rparr>, ex_slot\<lparr>m_entity := ex_G\<rparr>]))) = 1 \<and>
   m_animables (snd (createAnimable ex_env ex_E
      (ex_scene [ex_slot\<lparr>m_is_free := True\<rparr>, ex_slot\<lparr>m_entity := ex_G\<rparr>]))) =
     [\<lparr>m_manual = True, m_is_free = False, m_renderable = ex_invalid, m_time = 0,
       m_animation = None, m_entity = ex_E\<rparr>,
      ex_slot\<lparr>m_entity := ex_G\<rparr>]"
  by (simp add: createAnimable_def onComponentCreated_def allocated_index_def ex_defs)

section \<open>Lookup\<close>

text \<open>
  C7: \<^verbatim>\<open>getAnimable\<close> compares entities only. For a table whose only slot is a destroyed
  (free) slot of \<open>ex_E\<close>, the lookup of \<open>ex_E\<close> returns a handle to that slot, not
  the invalid handle.
\<close>

theorem getAnimable_returns_free_slot:
  "m_is_free (m_animables (ex_scene [ex_slot\<lparr>m_is_free := True\<rparr>]) ! 0) \<and>
   getAnimable ex_env ex_E (ex_scene [ex_slot\<lparr>m_is_free := True\<rparr>]) =
     Component ex_E (ANIMABLE_HASH ex_env) (this_scene ex_env) 0 \<and>
   getAnimable ex_env ex_E (ex_scene [ex_slot\<lparr>m_is_free := True\<rparr>]) \<noteq> INVALID ex_env"
  by (simp add: getAnimable_def ex_defs)

section \<open>Other component types\<close>

text \<open>
  C10: for a component type other than the Animable hash, \<^verbatim>\<open>createComponent\<close> returns
  the invalid handle and the scene is unchanged: the table is the same and no call to the
  universe (registration or component-created event) is recorded.
\<close>

theorem createComponent_other_type:
  "t \<noteq> ANIMABLE_HASH env \<Longrightarrow> createComponent env t e s = (INVALID env, s)"
  by (simp add: createComponent_def)

text \<open>Witness for C10: the renderable hash is not the Animable hash.\<close>

theorem createComponent_other_type_witness:
  "RENDERABLE_HASH ex_env \<noteq> ANIMABLE_HASH ex_env \<and>
   createComponent ex_env (RENDERABLE_HASH ex_env) ex_E (ex_scene [ex_slot]) = (ex_invalid, ex_scene [ex_slot])"
proof -
  have h: "RENDERABLE_HASH ex_env \<noteq> ANIMABLE_HASH ex_env"
    by (simp add: ex_env_def)
  from createComponent_other_type [OF h, of ex_E "ex_scene [ex_slot]"] h
  show ?thesis by (simp add: ex_env_def)
qed

section \<open>Assigning a clip\<close>

text \<open>
  C6: for a handle whose index is in the table, \<^verbatim>\<open>playAnimation\<close> sets the slot's clip to
  what the loader returns for the path, its time to \<open>0\<close> and its \<open>auto_advance\<close> to
  true, whatever the slot held before; the other slots and the universe are untouched.
\<close>

theorem playAnimation_restarts:
  assumes "in_table cmp s"
  shows "\<exists>s'. playAnimation env cmp path s = Some s' \<and>
     length (m_animables s') = length (m_animables s) \<and>
     m_universe s' = m_universe s \<and>
     (let a' = m_animables s' ! nat (component.index cmp) in
        m_animation a' = load env path \<and> m_time a' = 0 \<and> auto_advance a') \<and>
     (\<forall>j<length (m_animables s). j \<noteq> nat (component.index cmp) \<longrightarrow> m_animables s' ! j = m_animables s ! j)"
  using assms by (simp add: playAnimation_def in_table_def auto_advance_def Let_def)

text \<open>
  Witness for C6: a slot in manual mode at time \<open>5/4\<close> with no clip becomes the slot
  playing \<^verbatim>\<open>walk.ani\<close> from \<open>0\<close>.
\<close>

theorem playAnimation_restarts_witness:
  "in_table (Component ex_E (ANIMABLE_HASH ex_env) 1 0)
     (ex_scene [ex_slot\<lparr>m_manual := True, m_time := 5 / 4, m_animation := None\<rparr>]) \<and>
   playAnimation ex_env (Component ex_E (ANIMABLE_HASH ex_env) 1 0) ''walk.ani''
     (ex_scene [ex_slot\<lparr>m_manual := True, m_time := 5 / 4, m_animation := None\<rparr>]) =
     Some (ex_scene [ex_slot])"
proof -
  let ?cmp = "Component ex_E (ANIMABLE_HASH ex_env) 1 0"
  let ?s = "ex_scene [ex_slot\<lparr>m_manual := True, m_time := 5 / 4, m_animation := None\<rparr>]"
  have h: "in_table ?cmp ?s"
    by (simp add: in_table_def ex_defs)
  from playAnimation_restarts [OF h, of ex_env "''walk.ani''"]
  obtain s' where "playAnimation ex_env ?cmp ''walk.ani'' ?s = Some s'"
    by blast
  then have "playAnimation ex_env ?cmp ''walk.ani'' ?s = Some (ex_scene [ex_slot])"
    by (simp add: playAnimation_def in_table_def ex_defs)
  with h show ?thesis by simp
qed

section \<open>One live slot per entity\<close>

text \<open>
  The entities of the live slots, in table order, around the slot that a creation writes
  or a destruction frees.
\<close>

lemma live_list_update:
  assumes "i < length tbl"
  shows "map m_entity (filter (\<lambda>a. \<not> m_is_free a) (tbl[i := a])) =
     map m_entity (filter (\<lambda>a. \<not> m_is_free a) (take i tbl)) @
     (if m_is_free a then [] else [m_entity a]) @
     map m_entity (filter (\<lambda>a. \<not> m_is_free a) (drop (Suc i) tbl))"
  using assms by (simp add: upd_conv_take_nth_drop)

lemma live_list_split:
  assumes "i < length tbl"
  shows "map m_entity (filter (\<lambda>a. \<not> m_is_free a) tbl) =
     map m_entity (filter (\<lambda>a. \<not> m_is_free a) (take i tbl)) @
     (if m_is_free (tbl ! i) then [] else [m_entity (tbl ! i)]) @
     map m_entity (filter (\<lambda>a. \<not> m_is_free a) (drop (Suc i) tbl))"
proof -
  have "tbl[i := tbl ! i] = tbl" by simp
  with live_list_update [OF assms, of "tbl ! i"] show ?thesis by simp
qed

lemma live_entities_onComponentCreated:
  "live_entities (onComponentCreated env cmp s) = live_entities s"
proof (cases "find_first (\<lambda>a. m_entity a = entity cmp) (m_animables s)")
  case None
  then show ?thesis by (simp add: onComponentCreated_def)
next
  case (Some i)
  then have i: "i < length (m_animables s)" by (simp add: find_first_Some_iff)
  have "live_entities (s\<lparr>m_animables := (m_animables s)[i := (m_animables s ! i)\<lparr>m_renderable := cmp\<rparr>]\<rparr>) =
        live_entities s"
    unfolding live_entities_def
    by (simp add: live_list_update [OF i] live_list_split [OF i])
  with Some show ?thesis by (simp add: onComponentCreated_def)
qed

lemma live_entities_createAnimable:
  "live_entities (snd (createAnimable env e s)) =
     (let tbl = m_animables s; i = allocated_index tbl in
      map m_entity (filter (\<lambda>a. \<not> m_is_free a) (take i tbl)) @ [e] @
      map m_entity (filter (\<lambda>a. \<not> m_is_free a) (drop (Suc i) tbl)))"
proof (cases "find_first m_is_free (m_animables s)")
  case None
  then have i: "allocated_index (m_animables s) = length (m_animables s)"
    by (rule allocated_index_None)
  from None show ?thesis
    by (simp add: createAnimable_def Let_def live_entities_onComponentCreated i)
       (simp add: live_entities_def)
next
  case (Some i)
  then have i: "allocated_index (m_animables s) = i" and lt: "i < length (m_animables s)"
    by (simp_all add: allocated_index_Some find_first_Some_iff)
  from Some show ?thesis
    by (simp add: createAnimable_def Let_def live_entities_onComponentCreated i)
       (simp add: live_entities_def live_list_update [OF lt])
qed

lemma live_entities_before_create:
  "live_entities s =
     (let tbl = m_animables s; i = allocated_index tbl in
      map m_entity (filter (\<lambda>a. \<not> m_is_free a) (take i tbl)) @
      map m_entity (filter (\<lambda>a. \<not> m_is_free a) (drop (Suc i) tbl)))"
proof (cases "allocated_index (m_animables s) < length (m_animables s)")
  case True
  from allocated_index_reuse [OF True] have "m_is_free (m_animables s ! allocated_index (m_animables s))"
    by simp
  with live_list_split [OF True] show ?thesis
    by (simp add: live_entities_def Let_def)
next
  case False
  from allocated_index_append [OF False] show ?thesis
    by (simp add: live_entities_def Let_def)
qed

lemma createAnimable_keeps_one_live:
  assumes "one_live_slot_per_entity s" and "e \<notin> set (live_entities s)"
  shows "one_live_slot_per_entity (snd (createAnimable env e s))"
proof -
  let ?A = "map m_entity (filter (\<lambda>a. \<not> m_is_free a) (take (allocated_index (m_animables s)) (m_animables s)))"
  let ?B = "map m_entity (filter (\<lambda>a. \<not> m_is_free a) (drop (Suc (allocated_index (m_animables s))) (m_animables s)))"
  have before: "live_entities s = ?A @ ?B"
    using live_entities_before_create [of s] by (simp add: Let_def)
  have after: "live_entities (snd (createAnimable env e s)) = ?A @ [e] @ ?B"
    using live_entities_createAnimable [of env e s] by (simp add: Let_def)
  from assms before have "distinct (?A @ ?B)" "e \<notin> set (?A @ ?B)"
    by (simp_all add: one_live_slot_per_entity_def)
  then have "distinct (?A @ [e] @ ?B)" by auto
  with after show ?thesis by (simp add: one_live_slot_per_entity_def)
qed

lemma destroyComponent_keeps_one_live:
  assumes "one_live_slot_per_entity s" and "destroyComponent c s = Some s'"
  shows "one_live_slot_per_entity s'"
proof -
  let ?i = "nat (component.index c)"
  from assms(2) have i: "?i < length (m_animables s)"
    and s': "s' = s\<lparr>m_animables := (m_animables s)[?i := (m_animables s ! ?i)\<lparr>m_is_free := True\<rparr>],
                     m_universe := m_universe s @ [DestroyComponent c]\<rparr>"
    by (auto simp: destroyComponent_def in_table_def Let_def split: if_splits)
  let ?A = "map m_entity (filter (\<lambda>a. \<not> m_is_free a) (take ?i (m_animables s)))"
  let ?B = "map m_entity (filter (\<lambda>a. \<not> m_is_free a) (drop (Suc ?i) (m_animables s)))"
  from assms(1) live_list_split [OF i] have "distinct (?A @ ?B)"
    by (auto simp: one_live_slot_per_entity_def live_entities_def split: if_splits)
  moreover have "live_entities s' = ?A @ ?B"
    by (simp add: s' live_entities_def live_list_update [OF i])
  ultimately show ?thesis by (simp add: one_live_slot_per_entity_def)
qed

text \<open>
  C8, as stated, fails: \<^verbatim>\<open>createAnimable\<close> does not look for a live slot of the entity.
  Two creations for \<open>ex_E\<close> in the empty table leave two live slots of \<open>ex_E\<close>.
\<close>

theorem double_create_counterexample:
  "map_option one_live_slot_per_entity (run_ops ex_env [Create ex_E, Create ex_E] (ex_scene [])) = Some False"
  by (simp add: createAnimable_def onComponentCreated_def one_live_slot_per_entity_def live_entities_def ex_defs)

text \<open>
  C8 (amended): starting from a table with at most one live slot per entity, after any
  sequence of creations and destructions in which no creation is for an entity that has
  a live slot at that moment (and every destruction uses an index of the table), the
  sequence runs through and the table has at most one live slot per entity.
\<close>

theorem well_used_keeps_one_live:
  assumes "one_live_slot_per_entity s" and "well_used env ops s"
  shows "\<exists>s'. run_ops env ops s = Some s' \<and> one_live_slot_per_entity s'"
  using assms
proof (induction ops arbitrary: s)
  case Nil
  then show ?case by simp
next
  case (Cons op ops)
  show ?case
  proof (cases op)
    case (Create e)
    with Cons.prems have fresh: "e \<notin> set (live_entities s)"
      and rest: "well_used env ops (snd (createAnimable env e s))"
      by simp_all
    from createAnimable_keeps_one_live [OF Cons.prems(1) fresh]
    have "one_live_slot_per_entity (snd (createAnimable env e s))" .
    from Cons.IH [OF this rest] Create show ?thesis by simp
  next
    case (Destroy c)
    with Cons.prems(2) obtain s1 where d: "destroyComponent c s = Some s1"
      and rest: "well_used env ops s1"
      by (auto split: option.splits)
    from destroyComponent_keeps_one_live [OF Cons.prems(1) d]
    have "one_live_slot_per_entity s1" .
    from Cons.IH [OF this rest] Destroy d show ?thesis by simp
  qed
qed

text \<open>
  Witness for C8: create \<open>ex_E\<close>, create \<open>ex_G\<close>, destroy the slot of \<open>ex_E\<close>,
  create \<open>ex_E\<close> again.
\<close>

theorem well_used_keeps_one_live_witness:
  "one_live_slot_per_entity (ex_scene []) \<and>
   well_used ex_env [Create ex_E, Create ex_G, Destroy (Component ex_E (ANIMABLE_HASH ex_env) 1 0), Create ex_E]
     (ex_scene []) \<and>
   (\<exists>s'. run_ops ex_env
       [Create ex_E, Create ex_G, Destroy (Component ex_E (ANIMABLE_HASH ex_env) 1 0), Create ex_E]
       (ex_scene []) = Some s' \<and> one_live_slot_per_entity s')"
proof -
  let ?ops = "[Create ex_E, Create ex_G, Destroy (Component ex_E (ANIMABLE_HASH ex_env) 1 0), Create ex_E]"
  have h1: "one_live_slot_per_entity (ex_scene [])"
    by (simp add: one_live_slot_per_entity_def live_entities_def ex_defs)
  have h2: "well_used ex_env ?ops (ex_scene [])"
    by (simp add: createAnimable_def onComponentCreated_def destroyComponent_def in_table_def
        live_entities_def ex_defs)
  from well_used_keeps_one_live [OF h1 h2] h1 h2 show ?thesis by blast
qed

section \<open>Binding a renderable created later\<close>

lemma find_first_map: "find_first P xs = find_first (\<lambda>b. b) (map P xs)"
  by (induction xs) simp_all

lemma find_first_update_same:
  assumes "i < length xs" and "P x = P (xs ! i)"
  shows "find_first P (xs[i := x]) = find_first P xs"
proof -
  have "map P (xs[i := x]) = (map P xs)[i := map P xs ! i]"
    using assms by (simp add: map_update)
  then have "map P (xs[i := x]) = map P xs"
    by (simp only: list_update_id)
  then show ?thesis
    using find_first_map [of P "xs[i := x]"] find_first_map [of P xs] by simp
qed

lemma onComponentCreated_table:
  assumes "type cmp = RENDERABLE_HASH env"
  shows "length (m_animables (onComponentCreated env cmp s)) = length (m_animables s) \<and>
     m_universe (onComponentCreated env cmp s) = m_universe s \<and>
     (\<forall>i<length (m_animables s).
        m_animables (onComponentCreated env cmp s) ! i =
          (if m_entity (m_animables s ! i) = entity cmp \<and>
              (\<forall>j<i. m_entity (m_animables s ! j) \<noteq> entity cmp)
           then (m_animables s ! i)\<lparr>m_renderable := cmp\<rparr>
           else m_animables s ! i))"
proof (cases "find_first (\<lambda>a. m_entity a = entity cmp) (m_animables s)")
  case None
  then have "\<forall>a\<in>set (m_animables s). m_entity a \<noteq> entity cmp"
    by (simp add: find_first_None_iff)
  then have "\<forall>i<length (m_animables s). m_entity (m_animables s ! i) \<noteq> entity cmp"
    by simp
  with None assms show ?thesis by (simp add: onComponentCreated_def)
next
  case (Some k)
  then have k: "k < length (m_animables s)" "m_entity (m_animables s ! k) = entity cmp"
    "\<forall>j<k. m_entity (m_animables s ! j) \<noteq> entity cmp"
    by (simp_all add: find_first_Some_iff)
  have first: "(m_entity (m_animables s ! i) = entity cmp \<and>
      (\<forall>j<i. m_entity (m_animables s ! j) \<noteq> entity cmp)) \<longleftrightarrow> i = k" for i
    using k by (metis nat_neq_iff)
  from Some assms k(1) show ?thesis
    by (simp add: onComponentCreated_def first nth_list_update)
qed

lemma allocated_index_onComponentCreated:
  "allocated_index (m_animables (onComponentCreated env cmp s)) = allocated_index (m_animables s)"
proof (cases "find_first (\<lambda>a. m_entity a = entity cmp) (m_animables s)")
  case None
  then show ?thesis by (simp add: onComponentCreated_def)
next
  case (Some k)
  then have k: "k < length (m_animables s)" by (simp add: find_first_Some_iff)
  have "find_first m_is_free ((m_animables s)[k := (m_animables s ! k)\<lparr>m_renderable := cmp\<rparr>]) =
        find_first m_is_free (m_animables s)"
    by (rule find_first_update_same [OF k]) simp
  with Some k show ?thesis
    by (cases "type cmp = RENDERABLE_HASH env") (simp_all add: onComponentCreated_def allocated_index_def split: option.split)
qed

lemma created_then_notified:
  assumes hashes: "ANIMABLE_HASH env \<noteq> RENDERABLE_HASH env"
    and cmp: "type cmp = RENDERABLE_HASH env"
    and earlier: "\<forall>j<allocated_index (m_animables s). m_entity (m_animables s ! j) \<noteq> entity cmp"
  shows "m_renderable (m_animables (onComponentCreated env cmp (snd (createAnimable env (entity cmp) s)))
           ! allocated_index (m_animables s)) = cmp"
proof -
  let ?k = "allocated_index (m_animables s)"
  let ?s1 = "snd (createAnimable env (entity cmp) s)"
  have le: "?k \<le> length (m_animables s)" by (rule allocated_index_le)
  have tbl: "m_animables ?s1 =
     (if ?k < length (m_animables s) then m_animables s else m_animables s @ [new_Animable env])
     [?k := \<lparr>m_manual = True, m_is_free = False,
         m_renderable = (if isValid env (getRenderable env (entity cmp))
                         then getRenderable env (entity cmp) else INVALID env),
         m_time = 0, m_animation = None, m_entity = entity cmp\<rparr>]"
    by (rule createAnimable_table [OF hashes])
  have len: "?k < length (m_animables ?s1)"
    using le by (simp add: tbl)
  have at: "m_entity (m_animables ?s1 ! ?k) = entity cmp"
    using le by (simp add: tbl)
  have before: "\<forall>j<?k. m_entity (m_animables ?s1 ! j) \<noteq> entity cmp"
    using earlier le by (simp add: tbl nth_append)
  from onComponentCreated_table [OF cmp, of ?s1] len at before
  show ?thesis by simp
qed

lemma notified_then_created:
  assumes hashes: "ANIMABLE_HASH env \<noteq> RENDERABLE_HASH env"
    and valid: "isValid env cmp"
  shows "m_renderable (m_animables (snd (createAnimable (env\<lparr>getRenderable := (getRenderable env)(entity cmp := cmp)\<rparr>)
           (entity cmp) (onComponentCreated env cmp s))) ! allocated_index (m_animables s)) = cmp"
proof -
  let ?env = "env\<lparr>getRenderable := (getRenderable env)(entity cmp := cmp)\<rparr>"
  let ?s0 = "onComponentCreated env cmp s"
  have h: "ANIMABLE_HASH ?env \<noteq> RENDERABLE_HASH ?env" using hashes by simp
  have k: "allocated_index (m_animables ?s0) = allocated_index (m_animables s)"
    by (rule allocated_index_onComponentCreated)
  have le: "allocated_index (m_animables ?s0) \<le> length (m_animables ?s0)"
    by (rule allocated_index_le)
  show ?thesis
    using valid le by (simp add: createAnimable_table [OF h] k [symmetric])
qed

text \<open>
  C9, as stated, fails: the reaction to a renderable-created event does not test whether
  the slot's binding is invalid. A slot of \<open>ex_E\<close> that is bound to a valid renderable is
  bound anew to the component of the event.
\<close>

theorem onComponentCreated_rebinds_counterexample:
  "isValid ex_env (m_renderable (ex_slot\<lparr>m_renderable := ex_renderable\<rparr>)) \<and>
   m_renderable (m_animables (onComponentCreated ex_env (Component ex_E (RENDERABLE_HASH ex_env) 3 5)
       (ex_scene [ex_slot\<lparr>m_renderable := ex_renderable\<rparr>])) ! 0) =
     Component ex_E (RENDERABLE_HASH ex_env) 3 5 \<and>
   Component ex_E (RENDERABLE_HASH ex_env) 3 5 \<noteq> ex_renderable"
  by (simp add: onComponentCreated_def ex_defs)

text \<open>
  C9 (amended): on a renderable-created event for entity \<open>E\<close>, the component is stored as
  the binding of the first slot, in index order, whose entity is \<open>E\<close>, whatever binding
  that slot has, and no other slot changes. Consequently, when no slot before the one
  that creation allocates holds \<open>E\<close>, the slot of \<open>E\<close> ends bound to the renderable in
  both orders: slot created first and event delivered after, or renderable present (and
  event delivered) first and slot created after.
\<close>

theorem onComponentCreated_binds_first:
  assumes "type cmp = RENDERABLE_HASH env"
  shows "length (m_animables (onComponentCreated env cmp s)) = length (m_animables s) \<and>
     (\<forall>i<length (m_animables s).
        m_animables (onComponentCreated env cmp s) ! i =
          (if m_entity (m_animables s ! i) = entity cmp \<and>
              (\<forall>j<i. m_entity (m_animables s ! j) \<noteq> entity cmp)
           then (m_animables s ! i)\<lparr>m_renderable := cmp\<rparr>
           else m_animables s ! i)) \<and>
     (ANIMABLE_HASH env \<noteq> RENDERABLE_HASH env \<and> isValid env cmp \<and>
      (\<forall>j<allocated_index (m_animables s). m_entity (m_animables s ! j) \<noteq> entity cmp) \<longrightarrow>
        m_renderable (m_animables (onComponentCreated env cmp (snd (createAnimable env (entity cmp) s)))
           ! allocated_index (m_animables s)) = cmp \<and>
        m_renderable (m_animables (snd (createAnimable (env\<lparr>getRenderable := (getRenderable env)(entity cmp := cmp)\<rparr>)
           (entity cmp) (onComponentCreated env cmp s))) ! allocated_index (m_animables s)) = cmp)"
  using onComponentCreated_table [OF assms, of s] created_then_notified [OF _ assms, of s]
    notified_then_created [of env cmp s]
  by blast

text \<open>
  Witness for C9: the slot of \<open>ex_E\<close> is created in a table holding a slot of
  \<open>ex_G\<close>; it is unbound after its creation, and bound to \<open>ex_renderable\<close> after
  the event, as it is when the renderable comes first.
\<close>

theorem onComponentCreated_binds_first_witness:
  "type ex_renderable = RENDERABLE_HASH ex_env \<and>
   \<not> isValid ex_env (m_renderable (m_animables (snd (createAnimable ex_env ex_E
        (ex_scene [ex_slot\<lparr>m_entity := ex_G\<rparr>]))) ! 1)) \<and>
   m_renderable (m_animables (onComponentCreated ex_env ex_renderable
        (snd (createAnimable ex_env ex_E (ex_scene [ex_slot\<lparr>m_entity := ex_G\<rparr>])))) ! 1) = ex_renderable \<and>
   m_renderable (m_animables (snd (createAnimable ex_env_rendered ex_E
        (onComponentCreated ex_env ex_renderable (ex_scene [ex_slot\<lparr>m_entity := ex_G\<rparr>])))) ! 1) = ex_renderable \<and>
   isValid ex_env ex_renderable"
proof -
  let ?s = "ex_scene [ex_slot\<lparr>m_entity := ex_G\<rparr>]"
  have h: "type ex_renderable = RENDERABLE_HASH ex_env"
    by (simp add: ex_defs)
  have pre: "ANIMABLE_HASH ex_env \<noteq> RENDERABLE_HASH ex_env \<and> isValid ex_env ex_renderable \<and>
      (\<forall>j<allocated_index (m_animables ?s). m_entity (m_animables ?s ! j) \<noteq> entity ex_renderable)"
    by (simp add: allocated_index_def ex_defs)
  have k: "allocated_index (m_animables ?s) = 1" "entity ex_renderable = ex_E"
    by (simp_all add: allocated_index_def ex_defs)
  have env: "ex_env\<lparr>getRenderable := (getRenderable ex_env)(ex_E := ex_renderable)\<rparr> = ex_env_rendered"
    by (simp add: ex_env_rendered_def ex_env_def fun_eq_iff)
  have unbound: "\<not> isValid ex_env (m_renderable (m_animables (snd (createAnimable ex_env ex_E ?s)) ! 1))"
    by (simp add: createAnimable_def onComponentCreated_def ex_defs)
  from onComponentCreated_binds_first [OF h, of ?s] pre
  have "m_renderable (m_animables (onComponentCreated ex_env ex_renderable
            (snd (createAnimable ex_env ex_E ?s))) ! 1) = ex_renderable \<and>
        m_renderable (m_animables (snd (createAnimable ex_env_rendered ex_E
            (onComponentCreated ex_env ex_renderable ?s))) ! 1) = ex_renderable"
    by (simp add: k env)
  with h unbound pre show ?thesis by simp
qed

section \<open>Round trip through a blob\<close>

lemma deserialize_animable_serialized:
  assumes "length (getPreview env a) < LUMIX_MAX_PATH env" and "reloads env (getPreview env a)"
  shows "\<exists>a' c. deserialize_animable env i a0 (serialize_animable env a @ rest) = Some (a', c, rest) \<and>
     restored env a a'"
proof (cases "getPreview env a = []")
  case True
  with assms(1) show ?thesis
    by (auto simp: deserialize_animable_def serialize_animable_def restored_def Let_def getPreview_def
        split: option.splits)
next
  case False
  with assms(2) obtain anim where l: "load env (getPreview env a) = Some anim"
    and p: "getPath env anim = getPreview env a"
    by (auto simp: reloads_def)
  from False have "m_animation a \<noteq> None" by (auto simp: getPreview_def split: option.splits)
  with assms(1) False l p show ?thesis
    by (simp add: deserialize_animable_def serialize_animable_def restored_def Let_def)
       (simp add: getPreview_def)
qed

lemma deserialize_loop_serialized:
  assumes "length as0 = length tbl"
    and "\<forall>a\<in>set tbl. length (getPreview env a) < LUMIX_MAX_PATH env \<and> reloads env (getPreview env a)"
  shows "\<exists>tbl' calls. deserialize_loop env i as0 (concat (map (serialize_animable env) tbl) @ rest) =
       Some (tbl', calls, rest) \<and> list_all2 (restored env) tbl tbl'"
  using assms
proof (induction tbl arbitrary: as0 i)
  case Nil
  then show ?case by simp
next
  case (Cons a tbl)
  from Cons.prems(1) obtain b bs where as0: "as0 = b # bs" and len: "length bs = length tbl"
    by (cases as0) auto
  from Cons.prems(2) have ok: "length (getPreview env a) < LUMIX_MAX_PATH env" "reloads env (getPreview env a)"
    and oks: "\<forall>a\<in>set tbl. length (getPreview env a) < LUMIX_MAX_PATH env \<and> reloads env (getPreview env a)"
    by simp_all
  let ?rest = "concat (map (serialize_animable env) tbl) @ rest"
  from deserialize_animable_serialized [OF ok, of i b ?rest]
  obtain a' c where one: "deserialize_animable env i b (serialize_animable env a @ ?rest) = Some (a', c, ?rest)"
    and ra: "restored env a a'"
    by blast
  from Cons.IH [OF len oks, of "Suc i"]
  obtain tbl' calls where more: "deserialize_loop env (Suc i) bs ?rest = Some (tbl', calls, rest)"
    and rs: "list_all2 (restored env) tbl tbl'"
    by blast
  from one more ra rs show ?case by (simp add: as0)
qed

lemma length_resize: "length (resize n x xs) = n"
  by (simp add: resize_def)

lemma length_serialize_animable: "length (serialize_animable env a) = 5"
  by (simp add: serialize_animable_def)

lemma drop_serialized:
  "i < length tbl \<Longrightarrow>
     drop (5 * i) (concat (map (serialize_animable env) tbl)) =
       serialize_animable env (tbl ! i) @ concat (map (serialize_animable env) (drop (Suc i) tbl))"
proof (induction tbl arbitrary: i)
  case Nil
  then show ?case by simp
next
  case (Cons a tbl)
  show ?case
  proof (cases i)
    case 0
    then show ?thesis by simp
  next
    case (Suc k)
    with Cons.prems have "k < length tbl" by simp
    from Cons.IH [OF this] Suc show ?thesis
      by (simp add: length_serialize_animable)
  qed
qed

lemma serialize_layout:
  assumes "i < length (m_animables s)"
  shows "take 5 (drop (1 + 5 * i) (serialize env s)) = serialize_animable env (m_animables s ! i)"
  using drop_serialized [OF assms, of env]
  by (simp add: serialize_def length_serialize_animable)

text \<open>
  C2, as stated, fails: a free slot does not carry the path \<open>""\<close> when it held a clip,
  because \<^verbatim>\<open>destroyComponent\<close> only sets the free flag and \<^verbatim>\<open>serialize\<close> writes the path
  of whatever clip the slot points to. The destroyed slot of \<open>ex_E\<close> that played
  \<^verbatim>\<open>walk.ani\<close> is written with that path and read back with it.
\<close>

theorem serialize_free_slot_counterexample:
  "m_is_free (ex_slot\<lparr>m_is_free := True\<rparr>) \<and>
   serialize ex_env (ex_scene [ex_slot\<lparr>m_is_free := True\<rparr>]) =
     [B_int32 1, B_bool False, B_int32 (- 1), B_float 0, B_bool True, B_string ''walk.ani''] \<and>
   map_option (\<lambda>r. getPreview ex_env (m_animables (fst r) ! 0))
     (deserialize ex_env (ex_scene []) (serialize ex_env (ex_scene [ex_slot\<lparr>m_is_free := True\<rparr>]))) =
     Some ''walk.ani''"
  by (simp add: serialize_def serialize_animable_def deserialize_def deserialize_animable_def
      resize_def getPreview_def ex_defs)

text \<open>
  C2 (amended): for every table whose clip paths fit the path buffer and are reloaded
  under the same path, deserializing what \<^verbatim>\<open>serialize\<close> wrote succeeds, consumes exactly
  what was written, and reproduces the slot count and every slot's mode
  (\<^verbatim>\<open>m_manual\<close>, the negation of \<open>auto_advance\<close>), time, free flag and clip path; a slot
  without a clip, free or live, carries the path \<open>""\<close> and is read back without a clip.
  Each slot is written as five values in the order mode, entity index, time, free flag,
  clip path. For a slot whose renderable binding belongs to the slot's own entity, the
  entity index written and read back is the owning entity's.
\<close>

theorem serialize_deserialize_roundtrip:
  assumes "\<forall>a\<in>set (m_animables s). length (getPreview env a) < LUMIX_MAX_PATH env \<and> reloads env (getPreview env a)"
  shows "\<exists>s'. deserialize env s0 (serialize env s @ rest) = Some (s', rest) \<and>
     length (m_animables s') = length (m_animables s) \<and>
     (\<forall>i<length (m_animables s).
        let a = m_animables s ! i; a' = m_animables s' ! i;
            written = take 5 (drop (1 + 5 * i) (serialize env s)) in
        m_manual a' = m_manual a \<and> m_time a' = m_time a \<and> m_is_free a' = m_is_free a \<and>
        getPreview env a' = getPreview env a \<and>
        (m_animation a = None \<longrightarrow> m_animation a' = None \<and> getPreview env a' = []) \<and>
        (entity.index (entity (m_renderable a)) = entity.index (m_entity a) \<longrightarrow>
           entity.index (m_entity a') = entity.index (m_entity a) \<and>
           written ! 1 = B_int32 (entity.index (m_entity a))) \<and>
        length written = 5 \<and>
        written ! 0 = B_bool (m_manual a) \<and> written ! 2 = B_float (m_time a) \<and>
        written ! 3 = B_bool (m_is_free a) \<and> written ! 4 = B_string (getPreview env a))"
proof -
  let ?tbl = "m_animables s"
  let ?as0 = "resize (length ?tbl) (new_Animable env) (m_animables s0)"
  have "length ?as0 = length ?tbl" by (rule length_resize)
  from deserialize_loop_serialized [OF this assms, of 0 rest]
  obtain tbl' calls where loop: "deserialize_loop env 0 ?as0 (concat (map (serialize_animable env) ?tbl) @ rest) =
       Some (tbl', calls, rest)" and rs: "list_all2 (restored env) ?tbl tbl'"
    by blast
  let ?s' = "s0\<lparr>m_animables := tbl', m_universe := m_universe s0 @ calls\<rparr>"
  from loop have d: "deserialize env s0 (serialize env s @ rest) = Some (?s', rest)"
    by (simp add: deserialize_def serialize_def)
  from rs have len: "length tbl' = length ?tbl"
    by (simp add: list_all2_lengthD)
  have slots: "restored env (?tbl ! i) (tbl' ! i)" if "i < length ?tbl" for i
    using rs that by (simp add: list_all2_nthD)
  have "let a = ?tbl ! i; a' = m_animables ?s' ! i;
            written = take 5 (drop (1 + 5 * i) (serialize env s)) in
        m_manual a' = m_manual a \<and> m_time a' = m_time a \<and> m_is_free a' = m_is_free a \<and>
        getPreview env a' = getPreview env a \<and>
        (m_animation a = None \<longrightarrow> m_animation a' = None \<and> getPreview env a' = []) \<and>
        (entity.index (entity (m_renderable a)) = entity.index (m_entity a) \<longrightarrow>
           entity.index (m_entity a') = entity.index (m_entity a) \<and>
           written ! 1 = B_int32 (entity.index (m_entity a))) \<and>
        length written = 5 \<and>
        written ! 0 = B_bool (m_manual a) \<and> written ! 2 = B_float (m_time a) \<and>
        written ! 3 = B_bool (m_is_free a) \<and> written ! 4 = B_string (getPreview env a)"
    if i: "i < length ?tbl" for i
  proof -
    have w: "take 5 (drop (1 + 5 * i) (serialize env s)) =
        [B_bool (m_manual (?tbl ! i)), B_int32 (entity.index (entity (m_renderable (?tbl ! i)))),
         B_float (m_time (?tbl ! i)), B_bool (m_is_free (?tbl ! i)), B_string (getPreview env (?tbl ! i))]"
      using serialize_layout [OF i, of env] by (simp only: serialize_animable_def)
    have sel: "m_animables ?s' = tbl'" by simp
    from slots [OF i] show ?thesis
      unfolding Let_def w sel
      by (auto simp: restored_def getPreview_def)
  qed
  with d len show ?thesis by auto
qed

text \<open>
  Witness for C2: a live slot with a clip and a free slot without one, both bound to the
  renderable of their entity, come back with the same mode, entity index, time, free flag
  and path.
\<close>

theorem serialize_deserialize_roundtrip_witness:
  "map_option (\<lambda>r. map (\<lambda>a. (m_manual a, entity.index (m_entity a), m_time a, m_is_free a, getPreview ex_env a))
        (m_animables (fst r)))
     (deserialize ex_env (ex_scene [])
        (serialize ex_env (ex_scene [ex_slot\<lparr>m_renderable := ex_renderable\<rparr>,
           ex_slot\<lparr>m_renderable := ex_renderable, m_is_free := True, m_animation := None, m_time := 3 / 4\<rparr>]) @ [])) =
   Some [(False, 7, 0, False, ''walk.ani''), (False, 7, 3 / 4, True, [])]"
proof -
  let ?s = "ex_scene [ex_slot\<lparr>m_renderable := ex_renderable\<rparr>,
           ex_slot\<lparr>m_renderable := ex_renderable, m_is_free := True, m_animation := None, m_time := 3 / 4\<rparr>]"
  have h: "\<forall>a\<in>set (m_animables ?s).
      length (getPreview ex_env a) < LUMIX_MAX_PATH ex_env \<and> reloads ex_env (getPreview ex_env a)"
    by (simp add: getPreview_def reloads_def ex_defs)
  from serialize_deserialize_roundtrip [OF h, of "ex_scene []" "[]"]
  obtain s' where d: "deserialize ex_env (ex_scene []) (serialize ex_env ?s @ []) = Some (s', [])"
    and "length (m_animables s') = length (m_animables ?s)"
    by blast
  have "deserialize ex_env (ex_scene []) (serialize ex_env ?s @ []) =
      Some (\<lparr>m_animables = [ex_slot\<lparr>m_renderable := ex_invalid\<rparr>,
                ex_slot\<lparr>m_is_free := True, m_animation := None, m_time := 3 / 4\<rparr>],
              m_universe = [AddComponent (Component ex_E (ANIMABLE_HASH ex_env) 1 0),
                            AddComponent (Component ex_E (ANIMABLE_HASH ex_env) 1 1)]\<rparr>, [])"
    by (simp add: serialize_def serialize_animable_def deserialize_def deserialize_animable_def
        resize_def getPreview_def numeral_2_eq_2 ex_defs)
  with d show ?thesis
    by (simp add: getPreview_def ex_defs)
qed

text \<open>
  The entity index that \<^verbatim>\<open>serialize\<close> writes is \<^verbatim>\<open>m_renderable.entity.index\<close>, while
  \<^verbatim>\<open>deserialize\<close> reads it into \<^verbatim>\<open>m_entity.index\<close>: the slot of entity 7 with no
  renderable bound is written with the index of the invalid handle's entity and comes
  back as a slot of that entity.
\<close>

lemma serialize_writes_binding_entity:
  "entity.index (m_entity ex_slot) = 7 \<and>
   serialize ex_env (ex_scene [ex_slot]) =
     [B_int32 1, B_bool False, B_int32 (- 1), B_float 0, B_bool False, B_string ''walk.ani''] \<and>
   map_option (\<lambda>r. entity.index (m_entity (m_animables (fst r) ! 0)))
     (deserialize ex_env (ex_scene []) (serialize ex_env (ex_scene [ex_slot]))) = Some (- 1)"
  by (simp add: serialize_def serialize_animable_def deserialize_def deserialize_animable_def
      resize_def getPreview_def ex_defs)

section \<open>Frame update of a slot without a renderable\<close>

lemmas fl_defs = fl_env_def fl_slot_def fl_scene_def ex_invalid_def ex_E_def ex_renderable_def
  Component_def Let_def

text \<open>
  A live slot with a ready clip is sampled through the scene pointer of its binding,
  whatever the binding: with a null scene the tick does not return.
\<close>

lemma update_animable_null_scene:
  assumes "\<not> m_is_free a" and "m_animation a = Some c" and "isReady env c"
    and "scene (m_renderable a) = 0"
  shows "update_animable env dt a = Inl NullScene"
  using assms by (simp add: update_animable_def)

text \<open>
  C4: \<^verbatim>\<open>update\<close> does not skip the pose step of a live slot with a ready clip whose
  renderable binding is invalid. For such a slot, bound to the invalid handle (whose
  scene is null), the tick dereferences the null scene pointer and does not return: no
  pose is written, but not because the step is skipped, and the absence of the renderable
  is an error.
\<close>

theorem update_dereferences_null_scene:
  "\<not> m_is_free (fl_slot\<lparr>m_renderable := ex_invalid\<rparr>) \<and>
   m_animation (fl_slot\<lparr>m_renderable := ex_invalid\<rparr>) = Some 10 \<and> isReady fl_env 10 \<and>
   \<not> isValid fl_env (m_renderable (fl_slot\<lparr>m_renderable := ex_invalid\<rparr>)) \<and>
   update fl_env (Finite (1 / 2)) (fl_scene [fl_slot\<lparr>m_renderable := ex_invalid\<rparr>]) = Inl NullScene"
  by (simp add: update_def update_animable_def fl_defs)

section \<open>Exact binary32 arithmetic\<close>

text \<open>
  \<open>ilog2\<close> is the binary logarithm rounded down, and rounding leaves alone every
  multiple of \<open>2 ^ - k\<close> of magnitude below \<open>2 ^ (24 - k)\<close>, for \<open>k \<le> 149\<close>.
\<close>

lemma bitlen_bounds:
  "0 < n \<Longrightarrow> 2 ^ (bitlen n - 1) \<le> n \<and> n < 2 ^ bitlen n"
proof (induction n rule: bitlen.induct)
  case (1 n)
  show ?case
  proof (cases "n div 2 \<le> 0")
    case True
    with "1.prems" have "n = 1" by linarith
    then show ?thesis by (simp add: bitlen.simps)
  next
    case False
    then have pos: "0 < n div 2" by simp
    from "1.prems" have len: "bitlen n = Suc (bitlen (n div 2))"
      by (subst bitlen.simps) simp
    from "1.prems" "1.IH" pos have IH: "2 ^ (bitlen (n div 2) - 1) \<le> n div 2" "n div 2 < 2 ^ bitlen (n div 2)"
      by simp_all
    from pos have "bitlen (n div 2) \<noteq> 0"
      by (subst bitlen.simps) simp
    then have b: "bitlen (n div 2) = Suc (bitlen (n div 2) - 1)" by simp
    have "2 ^ bitlen (n div 2) = 2 * (2::int) ^ (bitlen (n div 2) - 1)"
      by (subst b) simp
    with IH(1) have lo: "2 ^ bitlen (n div 2) \<le> n" by linarith
    from IH(2) have hi: "n < 2 * 2 ^ bitlen (n div 2)" by linarith
    from lo hi show ?thesis by (simp add: len)
  qed
qed

lemma pow2_diff: "(2::rat) powi (int a - int b) = 2 ^ a / 2 ^ b"
  by (simp add: power_int_diff)

lemma ilog2_lower:
  assumes "0 < x"
  shows "2 powi (ilog2 x) \<le> x"
proof -
  obtain p q where pq: "quotient_of x = (p, q)" by (cases "quotient_of x")
  then have q: "0 < q" and x: "x = of_int p / of_int q"
    by (simp_all add: quotient_of_denom_pos quotient_of_div)
  from assms q x have p: "0 < p" by (simp add: zero_less_divide_iff)
  let ?c = "int (bitlen p) - int (bitlen q)"
  show ?thesis
  proof (cases "2 powi ?c \<le> x")
    case True
    with pq show ?thesis by (simp add: ilog2_def)
  next
    case False
    with pq have i: "ilog2 x = ?c - 1" by (simp add: ilog2_def)
    from bitlen_bounds [OF p] have "2 ^ (bitlen p - 1) \<le> p" by simp
    then have "of_int (2 ^ (bitlen p - 1)) \<le> (of_int p :: rat)" by (simp only: of_int_le_iff)
    then have P: "(2::rat) ^ (bitlen p - 1) \<le> of_int p" by simp
    from bitlen_bounds [OF q] have "q < 2 ^ bitlen q" by simp
    then have "(of_int q :: rat) < of_int (2 ^ bitlen q)" by (simp only: of_int_less_iff)
    then have Q: "of_int q < (2::rat) ^ bitlen q" by simp
    from p have "bitlen p \<noteq> 0" by (subst bitlen.simps) simp
    then have "int (bitlen p) - int (bitlen q) - 1 = int (bitlen p - 1) - int (bitlen q)" by simp
    then have "(2::rat) powi (?c - 1) = 2 ^ (bitlen p - 1) / 2 ^ bitlen q"
      by (simp only: pow2_diff)
    also have "\<dots> \<le> of_int p / 2 ^ bitlen q"
      using P by (simp add: divide_right_mono)
    also have "\<dots> \<le> of_int p / of_int q"
      using Q q p by (intro divide_left_mono mult_pos_pos) simp_all
    finally have "(2::rat) powi (?c - 1) \<le> x" by (simp only: x [symmetric])
    then show ?thesis by (simp only: i)
  qed
qed

lemma ilog2_upper:
  assumes "0 < x"
  shows "x < 2 powi (ilog2 x + 1)"
proof -
  obtain p q where pq: "quotient_of x = (p, q)" by (cases "quotient_of x")
  then have q: "0 < q" and x: "x = of_int p / of_int q"
    by (simp_all add: quotient_of_denom_pos quotient_of_div)
  from assms q x have p: "0 < p" by (simp add: zero_less_divide_iff)
  let ?c = "int (bitlen p) - int (bitlen q)"
  show ?thesis
  proof (cases "2 powi ?c \<le> x")
    case False
    with pq show ?thesis by (simp add: ilog2_def)
  next
    case True
    with pq have i: "ilog2 x = ?c" by (simp add: ilog2_def)
    from bitlen_bounds [OF p] have "p < 2 ^ bitlen p" by simp
    then have "(of_int p :: rat) < of_int (2 ^ bitlen p)" by (simp only: of_int_less_iff)
    then have P: "of_int p < (2::rat) ^ bitlen p" by simp
    from bitlen_bounds [OF q] have "2 ^ (bitlen q - 1) \<le> q" by simp
    then have "of_int (2 ^ (bitlen q - 1)) \<le> (of_int q :: rat)" by (simp only: of_int_le_iff)
    then have Q: "(2::rat) ^ (bitlen q - 1) \<le> of_int q" by simp
    from q have "bitlen q \<noteq> 0" by (subst bitlen.simps) simp
    then have "int (bitlen p) - int (bitlen q) + 1 = int (bitlen p) - int (bitlen q - 1)" by simp
    then have e: "(2::rat) powi (?c + 1) = 2 ^ bitlen p / 2 ^ (bitlen q - 1)"
      by (simp only: pow2_diff)
    have "of_int p / of_int q < (2::rat) ^ bitlen p / of_int q"
      using P q by (simp add: divide_strict_right_mono)
    also have "\<dots> \<le> 2 ^ bitlen p / 2 ^ (bitlen q - 1)"
      using Q q by (intro divide_left_mono mult_pos_pos) simp_all
    finally have "x < (2::rat) powi (?c + 1)" by (simp only: x [symmetric] e)
    then show ?thesis by (simp only: i)
  qed
qed

lemma round_half_even_of_int: "round_half_even (of_int n) = n"
  by (simp add: round_half_even_def)

lemma on_grid_iff: "on_grid k x \<longleftrightarrow> (\<exists>m::int. x * 2 ^ k = of_int m)"
  by (auto simp: on_grid_def)

lemma on_grid_0: "on_grid k 0"
  by (simp add: on_grid_def)



lemma round32_exact:
  assumes k: "k \<le> 149" and grid: "on_grid k x" and small: "\<bar>x\<bar> < 2 ^ 24 / 2 ^ k"
  shows "round32 x = Finite x"
proof (cases "x = 0")
  case True
  then show ?thesis by (simp add: round32_def)
next
  case False
  then have pos: "0 < \<bar>x\<bar>" by simp
  let ?n = "ilog2 \<bar>x\<bar>"
  let ?e = "max (- 149) (?n - 23)"
  have "?n < 24 - int k"
  proof (rule ccontr)
    assume "\<not> ?n < 24 - int k"
    then have "(2::rat) powi (24 - int k) \<le> 2 powi ?n"
      by (intro power_int_increasing) simp_all
    also have "\<dots> \<le> \<bar>x\<bar>" by (rule ilog2_lower [OF pos])
    finally have "2 ^ 24 / 2 ^ k \<le> \<bar>x\<bar>"
      using pow2_diff [of 24 k] by simp
    with small show False by simp
  qed
  with k have e: "?e \<le> - int k" by simp
  define j where "j = nat (- int k - ?e)"
  with e have ej: "?e = - int (k + j)" by simp
  have "(2::rat) powi (- int (k + j)) = inverse (2 ^ (k + j))"
    by (simp only: power_int_minus power_int_of_nat)
  then have p: "(2::rat) powi ?e = 1 / 2 ^ (k + j)"
    by (simp only: ej inverse_eq_divide)
  from grid obtain m :: int where m: "x * 2 ^ k = of_int m"
    unfolding on_grid_iff by blast
  have "x / 2 powi ?e = x * 2 ^ k * 2 ^ j"
    by (simp add: p power_add)
  also have "\<dots> = of_int (m * 2 ^ j)" by (simp add: m)
  finally have q: "x / 2 powi ?e = of_int (m * 2 ^ j)" .
  have "of_int (round_half_even (x / 2 powi ?e)) * (2::rat) powi ?e = x * 2 ^ k * 2 ^ j * (1 / 2 ^ (k + j))"
    unfolding q round_half_even_of_int by (simp add: p m)
  also have "\<dots> = x" by (simp add: power_add)
  finally have r: "of_int (round_half_even (x / 2 powi ?e)) * (2::rat) powi ?e = x" .
  have "(2::rat) ^ 24 / 2 ^ k \<le> 2 ^ 24" by (simp add: field_simps)
  with small have "\<bar>x\<bar> < 2 ^ 128" by simp
  then have "\<not> 2 powi 128 \<le> \<bar>x\<bar>" by simp
  with False r show ?thesis
    by (simp add: round32_def Let_def)
qed

section \<open>Looping time\<close>

text \<open>
  The wrap-around loop does not end once subtracting the length no longer changes the
  time. In binary32 this happens for a time of \<open>2 ^ 26\<close> and a length of 2, so a tick
  with such a step never returns; and a slot whose clip has length 0 stops the tick of
  the whole table.
\<close>

lemma wrap_loop_not_stuck:
  assumes "wrap_loop t l = Some y"
  shows "\<not> (l < t \<and> t - l = t)"
proof (rule wrap_loop.raw_induct [where P = "\<lambda>t l y. \<not> (l < t \<and> t - l = t)", OF _ assms])
  fix wrap :: "'a \<Rightarrow> 'a \<Rightarrow> 'a option" and t l y
  assume IH: "\<And>t l y. wrap t l = Some y \<Longrightarrow> \<not> (l < t \<and> t - l = t)"
    and step: "(if l < t then wrap (t - l) l else Some t) = Some y"
  show "\<not> (l < t \<and> t - l = t)"
  proof
    assume stuck: "l < t \<and> t - l = t"
    with step have "wrap t l = Some y" by simp
    from IH [OF this] stuck show False by simp
  qed
qed

lemma wrap_loop_stuck:
  assumes "l < t" and "t - l = t"
  shows "wrap_loop t l = None"
proof (cases "wrap_loop t l")
  case None
  then show ?thesis .
next
  case (Some y)
  from wrap_loop_not_stuck [OF this] assms show ?thesis by simp
qed

lemma update_never_returns:
  "update fl_env (Finite 67108864) (fl_scene [fl_slot]) = Inl EndlessLoop"
proof -
  have r: "round32 67108864 = Finite 67108864" "round32 67108862 = Finite 67108864"
    by code_simp+
  have "wrap_loop (Finite 67108864) (Finite 2) = None"
    by (rule wrap_loop_stuck) (simp_all add: r)
  then show ?thesis
    by (simp add: update_def update_animable_def r fl_defs)
qed

lemma update_hangs_on_neighbour:
  "update (fl_env\<lparr>getLength := (\<lambda>a. if a = 10 then Finite 2 else Finite 0)\<rparr>) (Finite 1)
     (fl_scene [fl_slot, fl_slot\<lparr>m_animation := Some 11\<rparr>]) = Inl EndlessLoop"
proof -
  have r: "round32 1 = Finite 1"
    by (rule round32_exact [of 0]) (simp_all add: on_grid_def)
  have first: "wrap_loop (Finite 1) (Finite 2) = Some (Finite 1)"
    by (subst wrap_loop.simps) simp
  have "wrap_loop (Finite 1) (Finite 0) = None"
    by (rule wrap_loop_stuck) (simp_all add: r)
  then show ?thesis
    by (simp add: update_def update_animable_def first r fl_defs)
qed
















end
